theory Spec2Isabelle
  imports
    Complex_Main
    "HOL-Library.AList"
    "HOL-Library.Multiset"
    "HOL-Library.Char_ord"
    "HOL-Library.List_Lexorder"
begin

section \<open>Data model\<close>

text \<open>
  The exceptions the two interpretation methods can end in.
  \<open>InterpreterUninitializedError\<close> is raised by the source itself; \<open>AttributeError\<close> is
  what Python raises for \<^verbatim>\<open>None.explain_instance\<close>; \<open>IndexError\<close> is what \<^verbatim>\<open>[0]\<close> raises
  on an empty list; \<open>KeyError\<close> is what a dictionary subscript raises on a missing key;
  \<open>UnsupportedStatisticError\<close> is the aggregator's answer to an unknown statistic.
\<close>

datatype error =
    InterpreterUninitializedError
  | AttributeError
  | IndexError
  | KeyError
  | UnsupportedStatisticError

text \<open>
  One class of an explanation record: the confidence of the explainer for that class and
  the ranked (feature, importance score) pairs. Confidences and scores are Python floats;
  they are taken as real numbers here.
\<close>

record 'f class_exp =
  confidence :: real
  features :: "('f \<times> real) list"

text \<open>
  An explanation record is a Python dictionary from class to \<open>class_exp\<close>. It is kept as
  the list of its items in iteration order (Python 3.7 dictionaries iterate in insertion
  order); a list that comes from a dictionary has distinct keys.
\<close>

type_synonym ('c, 'f) explanation = "('c \<times> 'f class_exp) list"

text \<open>
  The external explainer object. Its method \<^verbatim>\<open>explain_instance(instance, top_labels,
  num_samples, num_features)\<close> is taken as a parameter: from the explainer's state and the four
  arguments it gives the explanation record and the explainer's next state. Only calls
  that return are described; an exception of the explainer's own ends the calling method
  and is outside this development.
\<close>

type_synonym ('e, 'x, 'c, 'f) explain_instance =
  "'e \<Rightarrow> 'x \<Rightarrow> int \<Rightarrow> int \<Rightarrow> int \<Rightarrow> ('c, 'f) explanation \<times> 'e"

text \<open>
  The class \<^verbatim>\<open>ExplanationAggregator\<close> as the interpreter uses it, taken as a parameter: its
  constructor (from the confidence threshold), \<^verbatim>\<open>feed\<close> and \<^verbatim>\<open>get_statistics\<close>.
\<close>

record ('a, 'c, 'f, 's) aggregator_ops =
  construct :: "real \<Rightarrow> 'a"
  feed_op :: "'a \<Rightarrow> ('c, 'f) explanation \<Rightarrow> 'a"
  get_statistics_op :: "'a \<Rightarrow> string \<Rightarrow> int \<Rightarrow> error + 's"

text \<open>
  The progress messages sent through \<^verbatim>\<open>warnings.warn\<close>:
  \<^verbatim>\<open>'Interpret %s/%s samples'\<close> and \<^verbatim>\<open>'Analyze %s/%s samples'\<close> with their two numbers.
\<close>

datatype warning = InterpretProgress nat nat | AnalyzeProgress nat nat

text \<open>
  The fields of \<^verbatim>\<open>ModelInterpreter\<close>; \<open>explainer\<close> is \<^verbatim>\<open>self._explainer\<close>, \<open>None\<close> until built.
  An explainer object is taken to be true in a condition, as Python objects are unless
  they define otherwise, so \<^verbatim>\<open>if self._explainer\<close> asks whether it is \<open>None\<close>.
\<close>

record 'e ModelInterpreter =
  domain :: string
  algorithm :: "string option"
  explainer :: "'e option"

section \<open>ModelInterpreter\<close>

text \<open>\<^verbatim>\<open>__init__\<close>: stores the configuration, the explainer is not built.\<close>

definition init :: "string \<Rightarrow> string option \<Rightarrow> 'e ModelInterpreter" where
  "init dom_name alg = \<lparr>domain = dom_name, algorithm = alg, explainer = None\<rparr>"

text \<open>
  \<^verbatim>\<open>build_interpreter\<close>: asks the factory (a parameter) for the explainer of the domain and
  algorithm, and builds it with the keyword arguments.
\<close>

definition build_interpreter ::
  "(string \<Rightarrow> string option \<Rightarrow> 'e) \<Rightarrow> ('e \<Rightarrow> 'kw \<Rightarrow> 'e) \<Rightarrow> 'e ModelInterpreter \<Rightarrow> 'kw
    \<Rightarrow> 'e ModelInterpreter" where
  "build_interpreter get_explainer build_explainer self kwargs =
     self\<lparr>explainer := Some (build_explainer (get_explainer (domain self) (algorithm self)) kwargs)\<rparr>"

subsection \<open>interpret_model\<close>

text \<open>
  The loop of \<^verbatim>\<open>interpret_model\<close> (lines 75 to 82). \<open>n\<close> is \<^verbatim>\<open>len(samples)\<close> of the whole
  list, \<open>idx\<close> the index of \<^verbatim>\<open>enumerate\<close>; the state is the aggregator, the explainer and
  the warnings sent so far.
\<close>

fun interpret_samples ::
  "('e, 'x, 'c, 'f) explain_instance \<Rightarrow> ('a, 'c, 'f, 's) aggregator_ops \<Rightarrow> nat \<Rightarrow> int \<Rightarrow> nat
    \<Rightarrow> 'x list \<Rightarrow> 'a \<Rightarrow> 'e \<Rightarrow> warning list \<Rightarrow> 'a \<times> 'e \<times> warning list" where
  "interpret_samples X A n k idx [] agg e w = (agg, e, w)"
| "interpret_samples X A n k idx (sample # rest) agg e w =
     (case X e sample 1 (max (int n div 10) 100) k of
        (expl, e') \<Rightarrow>
          interpret_samples X A n k (Suc idx) rest (feed_op A agg expl) e'
            (if Suc idx mod 100 = 0 then w @ [InterpretProgress (Suc idx) n] else w))"

text \<open>
  \<^verbatim>\<open>interpret_model\<close>: the result or the exception, the interpreter afterwards, and the
  warnings sent.
\<close>

definition interpret_model ::
  "('e, 'x, 'c, 'f) explain_instance \<Rightarrow> ('a, 'c, 'f, 's) aggregator_ops \<Rightarrow> 'e ModelInterpreter
    \<Rightarrow> 'x list \<Rightarrow> string \<Rightarrow> int \<Rightarrow> (error + 's) \<times> 'e ModelInterpreter \<times> warning list" where
  "interpret_model X A self samples stats_type k =
     (case explainer self of
        Some e \<Rightarrow>
          (case interpret_samples X A (length samples) k 0 samples (construct A 0.8) e [] of
             (agg, e', w) \<Rightarrow>
               (get_statistics_op A agg stats_type k, self\<lparr>explainer := Some e'\<rparr>, w))
      | None \<Rightarrow> (Inl InterpreterUninitializedError, self, []))"

subsection \<open>error_analysis\<close>

text \<open>
  \<^verbatim>\<open>sorted(items, key=key, reverse=1)\<close>. Python's sort is stable and \<^verbatim>\<open>reverse\<close> keeps it so:
  the list is reversed, sorted in ascending order of the key, and reversed again, so the
  result is in descending order and items with equal keys keep their order.
\<close>

definition sorted_reverse :: "('a \<Rightarrow> 'k::linorder) \<Rightarrow> 'a list \<Rightarrow> 'a list" where
  "sorted_reverse key xs = rev (sort_key key (rev xs))"

text \<open>
  Line 119, the dictionary comprehension \<^verbatim>\<open>{_class: _class_exp['confidence'] for ...}\<close>: the
  items are inserted in iteration order; a key met again keeps its place and takes the
  new value.
\<close>

definition prob :: "('c, 'f) explanation \<Rightarrow> ('c \<times> real) list" where
  "prob expl = fold (\<lambda>(c, ce). AList.update c (confidence ce)) expl []"

text \<open>Line 120: the class of the first item of the descending sort; \<^verbatim>\<open>[0]\<close> fails on no item.\<close>

definition predict_label :: "('c, 'f) explanation \<Rightarrow> error + 'c" where
  "predict_label expl =
     (case sorted_reverse snd (prob expl) of
        [] \<Rightarrow> Inl IndexError
      | item # _ \<Rightarrow> Inr (fst item))"

text \<open>
  Lines 121 to 124 on \<^verbatim>\<open>error_analysis_dict\<close>, kept as the list of its items in insertion
  order: an aggregator with threshold 0 is stored under a cell that is not yet a key, then
  the aggregator under the cell is looked up and fed.
\<close>

definition feed_cell ::
  "('a, 'c, 'f, 's) aggregator_ops \<Rightarrow> 'c \<Rightarrow> 'c \<Rightarrow> ('c, 'f) explanation \<Rightarrow> (('c \<times> 'c) \<times> 'a) list
    \<Rightarrow> error + (('c \<times> 'c) \<times> 'a) list" where
  "feed_cell A gt_label predict expl d =
     (if predict \<noteq> gt_label then
        (let d1 = (if (gt_label, predict) \<notin> set (map fst d)
                   then AList.update (gt_label, predict) (construct A 0) d
                   else d)
         in case map_of d1 (gt_label, predict) of
              None \<Rightarrow> Inl KeyError
            | Some agg \<Rightarrow> Inr (AList.update (gt_label, predict) (feed_op A agg expl) d1))
      else Inr d)"

text \<open>
  The first loop of \<^verbatim>\<open>error_analysis\<close> (lines 115 to 127) over the zipped pairs. \<open>n\<close> is
  \<^verbatim>\<open>len(valid_x)\<close>, \<open>idx\<close> the index of \<^verbatim>\<open>enumerate\<close>, \<open>eo\<close> is \<^verbatim>\<open>self._explainer\<close>, which the
  loop body dereferences without a check.
\<close>

fun analyze_samples ::
  "('e, 'x, 'c, 'f) explain_instance \<Rightarrow> ('a, 'c, 'f, 's) aggregator_ops \<Rightarrow> int \<Rightarrow> int \<Rightarrow> nat \<Rightarrow> nat
    \<Rightarrow> ('x \<times> 'c) list \<Rightarrow> (('c \<times> 'c) \<times> 'a) list \<Rightarrow> 'e option \<Rightarrow> warning list
    \<Rightarrow> (error + (('c \<times> 'c) \<times> 'a) list) \<times> 'e option \<times> warning list" where
  "analyze_samples X A class_num k n idx [] d eo w = (Inr d, eo, w)"
| "analyze_samples X A class_num k n idx ((sample, gt_label) # rest) d eo w =
     (case eo of
        None \<Rightarrow> (Inl AttributeError, eo, w)
      | Some e \<Rightarrow>
          (case X e sample class_num 100 k of
             (expl, e') \<Rightarrow>
               (case predict_label expl of
                  Inl err \<Rightarrow> (Inl err, Some e', w)
                | Inr predict \<Rightarrow>
                    (case feed_cell A gt_label predict expl d of
                       Inl err \<Rightarrow> (Inl err, Some e', w)
                     | Inr d' \<Rightarrow>
                         analyze_samples X A class_num k n (Suc idx) rest d' (Some e')
                           (if Suc idx mod 10 = 0 then w @ [AnalyzeProgress (Suc idx) n]
                            else w)))))"

text \<open>
  The second loop (lines 129 to 131): the statistics of every cell's aggregator, in the
  dictionary's order; the first failing \<^verbatim>\<open>get_statistics\<close> ends the call.
\<close>

fun collect_statistics ::
  "('a, 'c, 'f, 's) aggregator_ops \<Rightarrow> string \<Rightarrow> int \<Rightarrow> (('c \<times> 'c) \<times> 'a) list
    \<Rightarrow> (('c \<times> 'c) \<times> 's) list \<Rightarrow> error + (('c \<times> 'c) \<times> 's) list" where
  "collect_statistics A stats_type k [] stats = Inr stats"
| "collect_statistics A stats_type k ((cm_cell, aggregator) # rest) stats =
     (case get_statistics_op A aggregator stats_type k of
        Inl err \<Rightarrow> Inl err
      | Inr s \<Rightarrow> collect_statistics A stats_type k rest (AList.update cm_cell s stats))"

text \<open>
  \<^verbatim>\<open>error_analysis\<close>: the result dictionary (as its items) or the exception, the interpreter
  afterwards, and the warnings sent.
\<close>

definition error_analysis ::
  "('e, 'x, 'c, 'f) explain_instance \<Rightarrow> ('a, 'c, 'f, 's) aggregator_ops \<Rightarrow> 'e ModelInterpreter
    \<Rightarrow> int \<Rightarrow> 'x list \<Rightarrow> 'c list \<Rightarrow> string \<Rightarrow> int
    \<Rightarrow> (error + (('c \<times> 'c) \<times> 's) list) \<times> 'e ModelInterpreter \<times> warning list" where
  "error_analysis X A self class_num valid_x valid_y stats_type k =
     (case analyze_samples X A class_num k (length valid_x) 0 (zip valid_x valid_y) []
             (explainer self) [] of
        (Inl err, eo, w) \<Rightarrow> (Inl err, self\<lparr>explainer := eo\<rparr>, w)
      | (Inr error_analysis_dict, eo, w) \<Rightarrow>
          (collect_statistics A stats_type k error_analysis_dict [], self\<lparr>explainer := eo\<rparr>, w))"

section \<open>ExplanationAggregator\<close>

text \<open>
  Modelled from the spec: the class \<^verbatim>\<open>ExplanationAggregator\<close> (module
  \<^verbatim>\<open>xai.model.interpreter.explanation_aggregator\<close>) is imported by the source file and is not
  among the source files. Its state is the spec's AggregatorState: the confidence
  threshold fixed at construction; per class the running count of records included; per
  class and feature the count of appearances, the running sum of importance scores, the
  running sum of rank positions and the multiset of rank positions (the histogram that
  answers \<open>count(rank \<le> k)\<close> at query time); and per class the features seen. Scores are
  taken as real numbers.
\<close>

record ('c, 'f) aggregator =
  confidence_threshold :: real
  included :: "'c \<Rightarrow> nat"
  feature_ids :: "'c \<Rightarrow> 'f set"
  appearances :: "'c \<Rightarrow> 'f \<Rightarrow> nat"
  score_sum :: "'c \<Rightarrow> 'f \<Rightarrow> real"
  rank_sum :: "'c \<Rightarrow> 'f \<Rightarrow> nat"
  rank_positions :: "'c \<Rightarrow> 'f \<Rightarrow> nat multiset"

text \<open>
  Modelled from the spec: the constructor of \<^verbatim>\<open>ExplanationAggregator\<close>, which fixes the
  threshold and starts with nothing accumulated (the reference does not validate the
  threshold).
\<close>

definition ExplanationAggregator :: "real \<Rightarrow> ('c, 'f) aggregator" where
  "ExplanationAggregator t =
     \<lparr>confidence_threshold = t,
      included = (\<lambda>c. 0),
      feature_ids = (\<lambda>c. {}),
      appearances = (\<lambda>c f. 0),
      score_sum = (\<lambda>c f. 0),
      rank_sum = (\<lambda>c f. 0),
      rank_positions = (\<lambda>c f. {#})\<rparr>"

text \<open>
  Modelled from the spec: the update of \<^verbatim>\<open>feed\<close> for one (feature, score) pair of class \<open>c\<close>
  at rank position \<open>r\<close>: appearance count, sum of scores, sum of ranks, and the rank
  histogram.
\<close>

definition feed_feature ::
  "'c \<Rightarrow> nat \<Rightarrow> 'f \<Rightarrow> real \<Rightarrow> ('c, 'f) aggregator \<Rightarrow> ('c, 'f) aggregator" where
  "feed_feature c r f s a =
     a\<lparr>feature_ids := (feature_ids a)(c := insert f (feature_ids a c)),
       appearances := (appearances a)(c := (appearances a c)(f := appearances a c f + 1)),
       score_sum := (score_sum a)(c := (score_sum a c)(f := score_sum a c f + s)),
       rank_sum := (rank_sum a)(c := (rank_sum a c)(f := rank_sum a c f + r)),
       rank_positions :=
         (rank_positions a)(c := (rank_positions a c)(f := add_mset r (rank_positions a c f)))\<rparr>"

text \<open>
  Modelled from the spec: the loop of \<^verbatim>\<open>feed\<close> over the ranked feature list of one class;
  \<open>r\<close> is the rank position of the head of the list, 1 for the whole list.
\<close>

fun feed_features ::
  "'c \<Rightarrow> nat \<Rightarrow> ('f \<times> real) list \<Rightarrow> ('c, 'f) aggregator \<Rightarrow> ('c, 'f) aggregator" where
  "feed_features c r [] a = a"
| "feed_features c r ((f, s) # rest) a = feed_features c (Suc r) rest (feed_feature c r f s a)"

text \<open>
  Modelled from the spec: what \<^verbatim>\<open>feed\<close> does for one class of the record. A class whose
  confidence is at least the threshold has its included-record count incremented and its
  features accumulated; a class below the threshold contributes nothing.
\<close>

definition feed_class ::
  "'c \<Rightarrow> 'f class_exp \<Rightarrow> ('c, 'f) aggregator \<Rightarrow> ('c, 'f) aggregator" where
  "feed_class c ce a =
     (if confidence_threshold a \<le> confidence ce
      then feed_features c 1 (features ce) (a\<lparr>included := (included a)(c := included a c + 1)\<rparr>)
      else a)"

text \<open>Modelled from the spec: \<^verbatim>\<open>feed(record)\<close>, every class of the record in turn.\<close>

definition feed :: "('c, 'f) aggregator \<Rightarrow> ('c, 'f) explanation \<Rightarrow> ('c, 'f) aggregator" where
  "feed a expl = fold (\<lambda>(c, ce). feed_class c ce) expl a"

text \<open>
  Modelled from the spec: \<open>top_k_count\<close> of a feature of a class, the number of its
  appearances at a rank position of at most \<open>k\<close>, read from the rank histogram with the
  \<open>k\<close> of the query.
\<close>

definition top_k_count :: "('c, 'f) aggregator \<Rightarrow> 'c \<Rightarrow> int \<Rightarrow> 'f \<Rightarrow> nat" where
  "top_k_count a c k f = size (filter_mset (\<lambda>r. int r \<le> k) (rank_positions a c f))"

text \<open>
  Modelled from the spec: \<open>average_score = sum_of_scores / appearance_count\<close> of a feature
  of a class.
\<close>

definition average_score :: "('c, 'f) aggregator \<Rightarrow> 'c \<Rightarrow> 'f \<Rightarrow> real" where
  "average_score a c f = score_sum a c f / real (appearances a c f)"

text \<open>
  Modelled from the spec: \<open>average_rank = sum_of_ranks / appearance_count\<close> of a feature of
  a class.
\<close>

definition average_rank :: "('c, 'f) aggregator \<Rightarrow> 'c \<Rightarrow> 'f \<Rightarrow> real" where
  "average_rank a c f = real (rank_sum a c f) / real (appearances a c f)"

text \<open>
  Modelled from the spec: the ranked result of \<^verbatim>\<open>get_statistics\<close> for one class: the features
  seen, in descending order of the statistic, ties broken by feature identifier ascending,
  truncated to the first \<open>k\<close>. The features are listed in ascending order first and then
  sorted stably, which breaks ties as required.
\<close>

definition ranked_descending :: "('f::linorder \<Rightarrow> 'v::linorder) \<Rightarrow> int \<Rightarrow> 'f set \<Rightarrow> 'f list" where
  "ranked_descending stat k fs = take (nat k) (sorted_reverse stat (sorted_list_of_set fs))"

text \<open>
  Modelled from the spec: the ranked result in ascending order of the statistic (lower
  average rank first), ties broken by feature identifier ascending, truncated to the
  first \<open>k\<close>.
\<close>

definition ranked_ascending :: "('f::linorder \<Rightarrow> 'v::linorder) \<Rightarrow> int \<Rightarrow> 'f set \<Rightarrow> 'f list" where
  "ranked_ascending stat k fs = take (nat k) (sort_key stat (sorted_list_of_set fs))"

text \<open>
  Modelled from the spec: \<^verbatim>\<open>get_statistics(stats_type, k)\<close>, a mapping from every class with
  at least one included record to its ranked features; an unsupported \<open>stats_type\<close> fails
  with \<open>UnsupportedStatisticError\<close>.
\<close>

definition get_statistics ::
  "('c, 'f::linorder) aggregator \<Rightarrow> string \<Rightarrow> int \<Rightarrow> error + ('c \<Rightarrow> 'f list option)" where
  "get_statistics a stats_type k =
     (if stats_type = ''top_k'' then
        Inr (\<lambda>c. if 0 < included a c
                 then Some (ranked_descending (top_k_count a c k) k (feature_ids a c))
                 else None)
      else if stats_type = ''average_score'' then
        Inr (\<lambda>c. if 0 < included a c
                 then Some (ranked_descending (average_score a c) k (feature_ids a c))
                 else None)
      else if stats_type = ''average_ranking'' then
        Inr (\<lambda>c. if 0 < included a c
                 then Some (ranked_ascending (average_rank a c) k (feature_ids a c))
                 else None)
      else Inl UnsupportedStatisticError)"

text \<open>
  Modelled from the spec: the class \<^verbatim>\<open>ExplanationAggregator\<close> as the interpreter is given
  it, made of the constructor, \<^verbatim>\<open>feed\<close> and \<^verbatim>\<open>get_statistics\<close> above.
\<close>

definition aggregator_class ::
  "(('c, 'f) aggregator, 'c, 'f::linorder, 'c \<Rightarrow> 'f list option) aggregator_ops" where
  "aggregator_class =
     \<lparr>construct = ExplanationAggregator, feed_op = feed, get_statistics_op = get_statistics\<rparr>"

section \<open>Notions the properties are stated with\<close>

text \<open>
  The explainer called on a list of requests (instance, top_labels, num_samples,
  num_features), one after the other: the records it gives, in order, and its state after
  the last call.
\<close>

fun explain_each ::
  "('e, 'x, 'c, 'f) explain_instance \<Rightarrow> 'e \<Rightarrow> ('x \<times> int \<times> int \<times> int) list
    \<Rightarrow> ('c, 'f) explanation list \<times> 'e" where
  "explain_each X e [] = ([], e)"
| "explain_each X e ((x, top_labels, num_samples, num_features) # calls) =
     (case X e x top_labels num_samples num_features of
        (expl, e') \<Rightarrow>
          (case explain_each X e' calls of (expls, e'') \<Rightarrow> (expl # expls, e'')))"

text \<open>The classes of a record that share its maximal confidence, in iteration order.\<close>

definition classes_of_max_confidence :: "('c, 'f) explanation \<Rightarrow> 'c list" where
  "classes_of_max_confidence expl =
     map fst (filter (\<lambda>(c, ce). confidence ce = Max (set (map (\<lambda>(c, ce). confidence ce) expl)))
       expl)"

text \<open>
  The misclassified samples of a validation run, in input order: for every ground-truth
  label and record whose predicted label differs from the ground truth, the cell
  (ground truth, predicted) and the record.
\<close>

definition misclassified ::
  "'c list \<Rightarrow> ('c, 'f) explanation list \<Rightarrow> (('c \<times> 'c) \<times> ('c, 'f) explanation) list" where
  "misclassified gt_labels expls =
     concat (map (\<lambda>(gt_label, expl).
                    case predict_label expl of
                      Inr predict \<Rightarrow>
                        if predict \<noteq> gt_label then [((gt_label, predict), expl)] else []
                    | Inl err \<Rightarrow> [])
               (zip gt_labels expls))"

text \<open>The records routed to one cell, in input order.\<close>

definition records_of_cell :: "'k \<Rightarrow> ('k \<times> 'r) list \<Rightarrow> 'r list" where
  "records_of_cell cell ms = map snd (filter (\<lambda>(c, r). c = cell) ms)"

text \<open>
  The dictionary of aggregators after the given (cell, record) pairs were routed in order:
  each record is fed to its cell's aggregator, which is constructed with threshold 0 when
  the cell has none yet.
\<close>

definition route_records ::
  "('a, 'c, 'f, 's) aggregator_ops \<Rightarrow> (('c \<times> 'c) \<times> ('c, 'f) explanation) list
    \<Rightarrow> (('c \<times> 'c) \<times> 'a) list \<Rightarrow> (('c \<times> 'c) \<times> 'a) list" where
  "route_records A ms d =
     fold (\<lambda>(cell, expl) d.
             AList.update cell
               (feed_op A (case map_of d cell of None \<Rightarrow> construct A 0 | Some agg \<Rightarrow> agg) expl) d)
       ms d"

text \<open>
  The (rank position, score) pairs at which feature \<open>f\<close> stands in a ranked feature list
  whose first position has rank \<open>r\<close>; ranks are 1-based, so \<open>r\<close> is 1 for a whole list.
\<close>

definition occurrences_from :: "nat \<Rightarrow> 'f \<Rightarrow> ('f \<times> real) list \<Rightarrow> (nat \<times> real) list" where
  "occurrences_from r f fs =
     map (\<lambda>(i, f', s). (i, s)) (filter (\<lambda>(i, f', s). f' = f) (zip [r..<r + length fs] fs))"

definition occurrences :: "'f \<Rightarrow> ('f \<times> real) list \<Rightarrow> (nat \<times> real) list" where
  "occurrences f fs = occurrences_from 1 f fs"

text \<open>
  What the aggregator holds for one class: the included-record count, the features seen
  and, per feature, the appearance count, the sum of scores, the sum of ranks and the
  rank positions.
\<close>

type_synonym 'f class_view =
  "nat \<times> 'f set \<times> ('f \<Rightarrow> nat) \<times> ('f \<Rightarrow> real) \<times> ('f \<Rightarrow> nat) \<times> ('f \<Rightarrow> nat multiset)"

definition class_view :: "('c, 'f) aggregator \<Rightarrow> 'c \<Rightarrow> 'f class_view" where
  "class_view a c =
     (included a c, feature_ids a c, appearances a c, score_sum a c, rank_sum a c,
      rank_positions a c)"

text \<open>
  What including one class entry of a record means for that class: the count goes up by
  one and every (feature, score) pair at rank position \<open>r\<close> adds one appearance, its score
  and its rank to its feature.
\<close>

definition accumulate :: "'f class_exp \<Rightarrow> 'f class_view \<Rightarrow> 'f class_view" where
  "accumulate ce v =
     (case v of
        (n, ids, app, sc, rk, pos) \<Rightarrow>
          (Suc n,
           ids \<union> fst ` set (features ce),
           (\<lambda>f. app f + length (occurrences f (features ce))),
           (\<lambda>f. sc f + sum_list (map snd (occurrences f (features ce)))),
           (\<lambda>f. rk f + sum_list (map fst (occurrences f (features ce)))),
           (\<lambda>f. pos f + mset (map fst (occurrences f (features ce))))))"

section \<open>Example inputs\<close>

text \<open>
  An explainer that answers from a table and keeps the list of the calls made to it
  (instance, top_labels, num_samples, num_features), oldest first.
\<close>

definition logging_explainer ::
  "('x \<Rightarrow> ('c, 'f) explanation)
    \<Rightarrow> (('x \<times> int \<times> int \<times> int) list, 'x, 'c, 'f) explain_instance" where
  "logging_explainer table calls x top_labels num_samples num_features =
     (table x, calls @ [(x, top_labels, num_samples, num_features)])"

text \<open>A one-class record: class 7 with confidence 0.9 and two ranked features.\<close>

definition confident_record :: "(nat, string) explanation" where
  "confident_record =
     [(7, \<lparr>confidence = 0.9, features = [(''f1'', 0.5), (''f2'', 0.3)]\<rparr>)]"

text \<open>
  Records over the classes 0 and 1 for three validation samples: sample 10 is predicted
  as class 0, sample 11 as class 1, and sample 12 has both classes at confidence 0.5.
\<close>

definition validation_table :: "nat \<Rightarrow> (nat, string) explanation" where
  "validation_table x =
     (if x = 10 then
        [(0, \<lparr>confidence = 0.9, features = [(''f1'', 0.5), (''f2'', 0.3)]\<rparr>),
         (1, \<lparr>confidence = 0.1, features = [(''f2'', 0.2)]\<rparr>)]
      else if x = 11 then
        [(0, \<lparr>confidence = 0.4, features = [(''f1'', 0.1)]\<rparr>),
         (1, \<lparr>confidence = 0.6, features = [(''f3'', 0.7), (''f1'', 0.2)]\<rparr>)]
      else
        [(0, \<lparr>confidence = 0.5, features = [(''f2'', 0.4)]\<rparr>),
         (1, \<lparr>confidence = 0.5, features = [(''f3'', 0.4)]\<rparr>)])"

text \<open>
  A record whose class 1 has exactly the confidence 0.8 and whose class 2 is just below
  it.
\<close>

definition threshold_record :: "(nat, string) explanation" where
  "threshold_record =
     [(1, \<lparr>confidence = 0.8, features = [(''f1'', 0.5), (''f2'', 0.3)]\<rparr>),
      (2, \<lparr>confidence = 0.79, features = [(''f1'', 0.9)]\<rparr>)]"

text \<open>An interpreter whose explainer is built and has not been called yet.\<close>

definition built_interpreter :: "('x \<times> int \<times> int \<times> int) list ModelInterpreter" where
  "built_interpreter = \<lparr>domain = ''text'', algorithm = None, explainer = Some []\<rparr>"

section \<open>Properties\<close>

text \<open>
  C2. When the explainer has not been built, \<^verbatim>\<open>interpret_model\<close> ends in
  \<open>InterpreterUninitializedError\<close> for every sample list, statistic and \<open>k\<close>; the
  interpreter is unchanged and nothing was sent. The outcome does not depend on the
  explainer method or on the aggregator class: neither is used.
\<close>

theorem interpret_model_uninitialized:
  assumes "explainer self = None"
  shows "interpret_model X A self samples stats_type k
           = (Inl InterpreterUninitializedError, self, [])"
  using assms by (simp add: interpret_model_def)

theorem interpret_model_uninitialized_witness:
  "explainer (init ''text'' None :: (nat \<times> int \<times> int \<times> int) list ModelInterpreter) = None
   \<and> interpret_model (logging_explainer (\<lambda>x. confident_record)) aggregator_class
         (init ''text'' None) [1, 2, 3 :: nat] ''top_k'' 5
       = (Inl InterpreterUninitializedError, init ''text'' None, [])"
proof -
  have h: "explainer (init ''text'' None :: (nat \<times> int \<times> int \<times> int) list ModelInterpreter)
             = None"
    by (simp add: init_def)
  show ?thesis
    using h by (simp add: interpret_model_uninitialized [OF h])
qed

subsection \<open>interpret_model on a built interpreter\<close>

lemma interpret_samples_closed:
  "fst (interpret_samples X A n k idx samples agg e w) =
     foldl (feed_op A) agg
       (fst (explain_each X e (map (\<lambda>sample. (sample, 1, max (int n div 10) 100, k)) samples)))
   \<and> fst (snd (interpret_samples X A n k idx samples agg e w)) =
     snd (explain_each X e (map (\<lambda>sample. (sample, 1, max (int n div 10) 100, k)) samples))"
proof (induction samples arbitrary: idx agg e w)
  case Nil
  show ?case by simp
next
  case (Cons sample rest)
  show ?case
    by (simp add: Cons.IH split: prod.splits)
qed

text \<open>
  C3. On a built interpreter, \<^verbatim>\<open>interpret_model\<close> calls the explainer on every sample in
  input order with \<open>top_labels = 1\<close>, \<open>num_samples = max(len(samples) // 10, 100)\<close> and
  \<open>num_features = k\<close>, feeds the records in that order into one aggregator constructed with
  threshold 0.8, and returns that aggregator's \<open>get_statistics(stats_type, k)\<close>; the
  explainer is left in the state after the last call.
\<close>

theorem interpret_model_aggregates:
  assumes "explainer self = Some e"
  shows "fst (interpret_model X A self samples stats_type k) =
           get_statistics_op A
             (foldl (feed_op A) (construct A 0.8)
                (fst (explain_each X e
                   (map (\<lambda>sample. (sample, 1, max (int (length samples) div 10) 100, k)) samples))))
             stats_type k
         \<and> explainer (fst (snd (interpret_model X A self samples stats_type k))) =
           Some (snd (explain_each X e
                   (map (\<lambda>sample. (sample, 1, max (int (length samples) div 10) 100, k)) samples)))"
proof -
  obtain agg e' w where r:
    "interpret_samples X A (length samples) k 0 samples (construct A 0.8) e [] = (agg, e', w)"
    by (metis prod_cases3)
  from interpret_samples_closed [of X A "length samples" k 0 samples "construct A 0.8" e "[]"] r
  have "agg = foldl (feed_op A) (construct A 0.8)
                (fst (explain_each X e
                   (map (\<lambda>sample. (sample, 1, max (int (length samples) div 10) 100, k)) samples)))"
    and "e' = snd (explain_each X e
                   (map (\<lambda>sample. (sample, 1, max (int (length samples) div 10) 100, k)) samples))"
    by simp_all
  with assms r show ?thesis
    by (simp add: interpret_model_def)
qed

theorem interpret_model_aggregates_witness:
  "explainer (built_interpreter :: (nat \<times> int \<times> int \<times> int) list ModelInterpreter) = Some []
   \<and> (case fst (interpret_model (logging_explainer (\<lambda>x. confident_record)) aggregator_class
                 built_interpreter [1, 2, 3 :: nat] ''top_k'' 1) of
        Inr m \<Rightarrow> m 7 = Some [''f1''] \<and> m 8 = None
      | Inl err \<Rightarrow> False)
   \<and> explainer (fst (snd (interpret_model (logging_explainer (\<lambda>x. confident_record))
                 aggregator_class built_interpreter [1, 2, 3 :: nat] ''top_k'' 1)))
       = Some [(1, 1, 100, 1), (2, 1, 100, 1), (3, 1, 100, 1)]"
proof -
  have h: "explainer (built_interpreter :: (nat \<times> int \<times> int \<times> int) list ModelInterpreter)
             = Some []"
    by (simp add: built_interpreter_def)
  note t = interpret_model_aggregates [OF h, of "logging_explainer (\<lambda>x. confident_record)"
      aggregator_class "[1, 2, 3]" "''top_k''" 1]
  have a: "(case get_statistics_op aggregator_class
             (foldl (feed_op aggregator_class) (construct aggregator_class 0.8)
                (fst (explain_each (logging_explainer (\<lambda>x. confident_record)) []
                   (map (\<lambda>sample. (sample, 1, max (int (length [1, 2, 3 :: nat]) div 10) 100, 1))
                      [1, 2, 3 :: nat]))))
             ''top_k'' 1 of
            Inr m \<Rightarrow> m 7 = Some [''f1''] \<and> m 8 = None
          | Inl err \<Rightarrow> False)"
    by code_simp
  have b: "snd (explain_each (logging_explainer (\<lambda>x. confident_record)) []
                   (map (\<lambda>sample. (sample, 1, max (int (length [1, 2, 3 :: nat]) div 10) 100, 1))
                      [1, 2, 3 :: nat]))
            = [(1, 1, 100, 1), (2, 1, 100, 1), (3, 1, 100, 1)]"
    by code_simp
  show ?thesis
    using h a b by (simp only: t simp_thms)
qed

subsection \<open>error_analysis on an interpreter that was not built\<close>

text \<open>
  C1. \<^verbatim>\<open>error_analysis\<close> has no check of \<^verbatim>\<open>self._explainer\<close>. On an interpreter as
  \<^verbatim>\<open>__init__\<close> leaves it, it returns the empty dictionary when there is no pair to
  analyse, and ends in Python's \<open>AttributeError\<close>, not in \<open>InterpreterUninitializedError\<close>,
  when there is one.
\<close>

theorem error_analysis_unbuilt:
  "error_analysis X A (init dom_name alg) class_num [] [] stats_type k
     = (Inr [], init dom_name alg, [])
   \<and> error_analysis X A (init dom_name alg) class_num (x # xs) (y # ys) stats_type k
     = (Inl AttributeError, init dom_name alg, [])"
  by (simp add: error_analysis_def init_def)

subsection \<open>The predicted label\<close>

lemma update_fresh_append:
  "k \<notin> fst ` set al \<Longrightarrow> AList.update k v al = al @ [(k, v)]"
  by (induction al) auto

lemma fold_update_distinct:
  "distinct (map fst acc @ map fst expl) \<Longrightarrow>
   fold (\<lambda>(c, ce). AList.update c (confidence ce)) expl acc
     = acc @ map (\<lambda>(c, ce). (c, confidence ce)) expl"
proof (induction expl arbitrary: acc)
  case Nil
  show ?case by simp
next
  case (Cons p expl)
  obtain c ce where p: "p = (c, ce)" by (cases p)
  from Cons.prems p have fresh: "c \<notin> fst ` set acc"
    by auto
  from Cons.prems p have d: "distinct (map fst (acc @ [(c, confidence ce)]) @ map fst expl)"
    by auto
  show ?case
    using Cons.IH [OF d] by (simp add: p update_fresh_append [OF fresh])
qed

lemma prob_distinct:
  "distinct (map fst expl) \<Longrightarrow> prob expl = map (\<lambda>(c, ce). (c, confidence ce)) expl"
  using fold_update_distinct [of "[]" expl] by (simp add: prob_def)

lemma sorted_reverse_Cons:
  assumes "sorted_reverse key xs = y # ys"
  shows "y \<in> set xs"
    and "\<forall>x\<in>set xs. key x \<le> key y"
    and "\<exists>zs. filter (\<lambda>x. key x = key y) xs = y # zs"
proof -
  let ?S = "sort_key key (rev xs)"
  from assms have S: "?S = rev ys @ [y]"
    by (simp add: sorted_reverse_def rev_eq_Cons_iff)
  have "set ?S = set xs" by simp
  with S show "y \<in> set xs" by (metis in_set_conv_decomp)
  have "sorted (map key ?S)" by (rule sorted_sort_key)
  then have "\<forall>x\<in>set (rev ys). key x \<le> key y"
    unfolding S by (simp add: sorted_append)
  moreover have "set xs = set (rev ys) \<union> {y}"
    using \<open>set ?S = set xs\<close> unfolding S by auto
  ultimately show "\<forall>x\<in>set xs. key x \<le> key y" by auto
  have "filter (\<lambda>x. key x = key y) ?S = filter (\<lambda>x. key x = key y) (rev xs)"
    by (rule sort_key_stable)
  then have "rev (filter (\<lambda>x. key x = key y) xs) = filter (\<lambda>x. key x = key y) (rev ys) @ [y]"
    unfolding S by (simp add: rev_filter)
  then have "filter (\<lambda>x. key x = key y) xs = y # rev (filter (\<lambda>x. key x = key y) (rev ys))"
    by (metis rev_rev_ident rev.simps(2) rev_append rev_singleton_conv append_Cons append_Nil rev_swap)
  then show "\<exists>zs. filter (\<lambda>x. key x = key y) xs = y # zs" by blast
qed

lemma sorted_reverse_Nil: "sorted_reverse key xs = [] \<longleftrightarrow> xs = []"
  by (metis length_0_conv length_rev length_sort sorted_reverse_def)

lemma predict_label_first_max:
  assumes "distinct (map fst expl)" and "expl \<noteq> []"
  shows "\<exists>c ce rest. predict_label expl = Inr c
           \<and> filter (\<lambda>(c', ce'). confidence ce' = confidence ce) expl = (c, ce) # rest
           \<and> (\<forall>(c', ce')\<in>set expl. confidence ce' \<le> confidence ce)"
proof -
  let ?g = "\<lambda>(c, ce). (c, confidence (ce :: 'b class_exp))"
  have pr: "prob expl = map ?g expl"
    using assms(1) by (rule prob_distinct)
  with assms(2) obtain y ys where s: "sorted_reverse snd (prob expl) = y # ys"
    by (metis sorted_reverse_Nil map_is_Nil_conv neq_Nil_conv)
  from sorted_reverse_Cons [OF s] pr
  obtain zs where mx: "\<forall>x\<in>set (map ?g expl). snd x \<le> snd y"
    and fl: "filter (\<lambda>x. snd x = snd y) (map ?g expl) = y # zs"
    by auto
  from fl have "map ?g (filter ((\<lambda>x. snd x = snd y) \<circ> ?g) expl) = y # zs"
    by (simp add: filter_map)
  then obtain p rest where f: "filter ((\<lambda>x. snd x = snd y) \<circ> ?g) expl = p # rest"
    and py: "?g p = y"
    by (auto simp: map_eq_Cons_conv)
  obtain c ce where p: "p = (c, ce)" by (cases p)
  from py p have y: "y = (c, confidence ce)" by simp
  have eqf: "((\<lambda>x. snd x = snd y) \<circ> ?g) = (\<lambda>(c', ce'). confidence ce' = confidence ce)"
    by (auto simp: y fun_eq_iff)
  have "predict_label expl = Inr c"
    by (simp add: predict_label_def s y)
  moreover have "filter (\<lambda>(c', ce'). confidence ce' = confidence ce) expl = (c, ce) # rest"
    using f [unfolded eqf] p by simp
  moreover have "\<forall>(c', ce')\<in>set expl. confidence ce' \<le> confidence ce"
    using mx y by auto
  ultimately show ?thesis by blast
qed

lemma feed_cell_Inr:
  "feed_cell A gt_label predict expl d =
     Inr (if predict \<noteq> gt_label
          then AList.update (gt_label, predict)
                 (feed_op A (case map_of d (gt_label, predict) of
                               None \<Rightarrow> construct A 0 | Some agg \<Rightarrow> agg) expl) d
          else d)"
proof (cases "map_of d (gt_label, predict)")
  case None
  then have "(gt_label, predict) \<notin> fst ` set d"
    by (simp add: map_of_eq_None_iff)
  with None show ?thesis
    by (simp add: feed_cell_def update_conv')
next
  case (Some agg)
  then have "(gt_label, predict) \<in> fst ` set d"
    by (metis map_of_eq_None_iff option.distinct(1))
  with Some show ?thesis
    by (simp add: feed_cell_def)
qed


text \<open>
  C9. The predicted label of a record (a dictionary with at least one class) is the first,
  in the record's iteration order, of the classes that share the maximal confidence.
\<close>

theorem predict_label_first_of_maximal:
  assumes "distinct (map fst expl)" and "expl \<noteq> []"
  shows "classes_of_max_confidence expl \<noteq> []
         \<and> predict_label expl = Inr (hd (classes_of_max_confidence expl))"
proof -
  from predict_label_first_max [OF assms]
  obtain c ce rs where p: "predict_label expl = Inr c"
    and f: "filter (\<lambda>(c', ce'). confidence ce' = confidence ce) expl = (c, ce) # rs"
    and m: "\<forall>(c', ce')\<in>set expl. confidence ce' \<le> confidence ce"
    by blast
  from f have "(c, ce) \<in> set (filter (\<lambda>(c', ce'). confidence ce' = confidence ce) expl)"
    by simp
  then have i: "(c, ce) \<in> set expl" by simp
  have "Max (set (map (\<lambda>(c, ce). confidence ce) expl)) = confidence ce"
  proof (rule Max_eqI)
    show "finite (set (map (\<lambda>(c, ce). confidence ce) expl))" by simp
    show "y \<le> confidence ce" if "y \<in> set (map (\<lambda>(c, ce). confidence ce) expl)" for y
      using that m by auto
    show "confidence ce \<in> set (map (\<lambda>(c, ce). confidence ce) expl)"
      using i by force
  qed
  then have "classes_of_max_confidence expl = c # map fst rs"
    by (simp add: classes_of_max_confidence_def f)
  with p show ?thesis by simp
qed

theorem predict_label_first_of_maximal_witness:
  "distinct (map fst (validation_table 12))
   \<and> validation_table 12 \<noteq> []
   \<and> classes_of_max_confidence (validation_table 12) = [0, 1]
   \<and> predict_label (validation_table 12) = Inr 0"
proof -
  have h1: "distinct (map fst (validation_table 12))"
    by (simp add: validation_table_def)
  have h2: "validation_table 12 \<noteq> []"
    by (simp add: validation_table_def)
  have c: "classes_of_max_confidence (validation_table 12) = [0, 1]"
    by code_simp
  from predict_label_first_of_maximal [OF h1 h2] c
  have "predict_label (validation_table 12) = Inr 0" by simp
  with h1 h2 c show ?thesis by blast
qed

subsection \<open>Validation lists of different lengths\<close>

lemma analyze_samples_independent:
  "fst (analyze_samples X A class_num k n idx ps d eo w) =
     fst (analyze_samples X A class_num k n' idx' ps d eo w')
   \<and> fst (snd (analyze_samples X A class_num k n idx ps d eo w)) =
     fst (snd (analyze_samples X A class_num k n' idx' ps d eo w'))"
proof (induction ps arbitrary: idx idx' d eo w w')
  case Nil
  show ?case by simp
next
  case (Cons p ps)
  obtain sample gt_label where p: "p = (sample, gt_label)" by (cases p)
  show ?case
    unfolding p
    by (simp split: option.splits prod.splits sum.splits)
       (metis Cons.IH)
qed

lemma error_analysis_components:
  "fst (error_analysis X A self class_num valid_x valid_y stats_type k) =
     (case fst (analyze_samples X A class_num k (length valid_x) 0 (zip valid_x valid_y) []
                  (explainer self) []) of
        Inl err \<Rightarrow> Inl err
      | Inr d \<Rightarrow> collect_statistics A stats_type k d [])"
  "fst (snd (error_analysis X A self class_num valid_x valid_y stats_type k)) =
     self\<lparr>explainer := fst (snd (analyze_samples X A class_num k (length valid_x) 0
                                  (zip valid_x valid_y) [] (explainer self) []))\<rparr>"
  by (simp_all add: error_analysis_def split: prod.splits sum.splits)

lemma zip_take_min:
  "zip (take (min (length xs) (length ys)) xs) (take (min (length xs) (length ys)) ys) = zip xs ys"
  by (metis length_zip order_refl take_all take_zip)

text \<open>
  C10. \<^verbatim>\<open>error_analysis\<close> on validation lists of any two lengths gives the result, and
  leaves the explainer in the state, of the call on the first \<open>min(len(valid_x), len(valid_y))\<close>
  elements of each: there is no length check, and the elements after that point are
  neither explained nor counted.
\<close>

theorem error_analysis_truncates:
  "fst (error_analysis X A self class_num valid_x valid_y stats_type k) =
     fst (error_analysis X A self class_num
            (take (min (length valid_x) (length valid_y)) valid_x)
            (take (min (length valid_x) (length valid_y)) valid_y) stats_type k)
   \<and> fst (snd (error_analysis X A self class_num valid_x valid_y stats_type k)) =
     fst (snd (error_analysis X A self class_num
            (take (min (length valid_x) (length valid_y)) valid_x)
            (take (min (length valid_x) (length valid_y)) valid_y) stats_type k))"
  unfolding error_analysis_components zip_take_min
  using analyze_samples_independent
    [of X A class_num k "length valid_x" 0 "zip valid_x valid_y" "[]" "explainer self" "[]"
        "length (take (min (length valid_x) (length valid_y)) valid_x)" 0 "[]"]
  by simp

theorem error_analysis_truncates_witness:
  "(case fst (error_analysis (logging_explainer validation_table) aggregator_class
                built_interpreter 2 [10, 11, 12] [0, 0] ''top_k'' 5) of
      Inr stats \<Rightarrow> map fst stats = [(0, 1)]
    | Inl err \<Rightarrow> False)
   \<and> explainer (fst (snd (error_analysis (logging_explainer validation_table) aggregator_class
                built_interpreter 2 [10, 11, 12] [0, 0] ''top_k'' 5)))
       = Some [(10, 2, 100, 5), (11, 2, 100, 5)]"
proof -
  note t = error_analysis_truncates [of "logging_explainer validation_table" aggregator_class
      built_interpreter 2 "[10, 11, 12]" "[0, 0]" "''top_k''" 5]
  have a: "(case fst (error_analysis (logging_explainer validation_table) aggregator_class
                built_interpreter 2 [10, 11] [0, 0] ''top_k'' 5) of
      Inr stats \<Rightarrow> map fst stats = [(0, 1)]
    | Inl err \<Rightarrow> False)"
    by code_simp
  have b: "explainer (fst (snd (error_analysis (logging_explainer validation_table)
                aggregator_class built_interpreter 2 [10, 11] [0, 0] ''top_k'' 5)))
       = Some [(10, 2, 100, 5), (11, 2, 100, 5)]"
    by code_simp
  from t a b show ?thesis by simp
qed

subsection \<open>The cells of error_analysis\<close>

lemma fold_update_nonempty:
  "acc \<noteq> [] \<or> expl \<noteq> [] \<Longrightarrow> fold (\<lambda>(c, ce). AList.update c (confidence ce)) expl acc \<noteq> []"
  by (induction expl arbitrary: acc) (auto split: prod.splits)

lemma predict_label_nonempty:
  assumes "expl \<noteq> []"
  shows "\<exists>p. predict_label expl = Inr p"
proof -
  have "prob expl \<noteq> []"
    using assms fold_update_nonempty [of "[]" expl] by (simp add: prob_def)
  then have "sorted_reverse snd (prob expl) \<noteq> []"
    by (simp add: sorted_reverse_Nil)
  then show ?thesis
    by (auto simp: predict_label_def split: list.splits)
qed

lemma route_records_Nil: "route_records A [] d = d"
  by (simp add: route_records_def)

lemma route_records_Cons:
  "route_records A ((cell, expl) # ms) d =
     route_records A ms
       (AList.update cell
          (feed_op A (case map_of d cell of None \<Rightarrow> construct A 0 | Some agg \<Rightarrow> agg) expl) d)"
  by (simp add: route_records_def)

lemma misclassified_Cons:
  "misclassified (gt_label # gts) (expl # expls) =
     (case predict_label expl of
        Inr predict \<Rightarrow> if predict \<noteq> gt_label then [((gt_label, predict), expl)] else []
      | Inl err \<Rightarrow> [])
     @ misclassified gts expls"
  by (simp add: misclassified_def)

lemma misclassified_Nil: "misclassified [] expls = []"
  by (simp add: misclassified_def)

lemma analyze_samples_closed:
  assumes "[] \<notin> set (fst (explain_each X e (map (\<lambda>(x, y). (x, class_num, 100, k)) ps)))"
  shows "fst (analyze_samples X A class_num k n idx ps d (Some e) w) =
           Inr (route_records A
                  (misclassified (map snd ps)
                     (fst (explain_each X e (map (\<lambda>(x, y). (x, class_num, 100, k)) ps))))
                  d)"
  using assms
proof (induction ps arbitrary: idx d e w)
  case Nil
  show ?case by (simp add: misclassified_Nil route_records_Nil)
next
  case (Cons p ps)
  obtain sample gt_label where p: "p = (sample, gt_label)" by (cases p)
  obtain expl e' where x: "X e sample class_num 100 k = (expl, e')" by (cases "X e sample class_num 100 k")
  obtain expls e'' where xs:
    "explain_each X e' (map (\<lambda>(x, y). (x, class_num, 100, k)) ps) = (expls, e'')"
    by (cases "explain_each X e' (map (\<lambda>(x, y). (x, class_num, 100, k)) ps)")
  have all: "fst (explain_each X e (map (\<lambda>(x, y). (x, class_num, 100, k)) (p # ps))) = expl # expls"
    by (simp add: p x xs)
  with Cons.prems have ne: "expl \<noteq> []" and rest: "[] \<notin> set expls"
    by auto
  from predict_label_nonempty [OF ne] obtain pr where pr: "predict_label expl = Inr pr"
    by blast
  from rest xs have prem: "[] \<notin> set (fst (explain_each X e' (map (\<lambda>(x, y). (x, class_num, 100, k)) ps)))"
    by simp
  note IH = Cons.IH [OF prem]
  show ?case
    unfolding all
    by (simp add: p x pr feed_cell_Inr IH xs misclassified_Cons route_records_Cons)
qed


lemma keys_route_records:
  "fst ` set (route_records A ms d) = fst ` set d \<union> fst ` set ms"
proof (induction ms arbitrary: d)
  case Nil
  show ?case by (simp add: route_records_Nil)
next
  case (Cons m ms)
  obtain cell expl where m: "m = (cell, expl)" by (cases m)
  show ?case
    unfolding m route_records_Cons Cons.IH dom_update by auto
qed

lemma distinct_route_records:
  "distinct (map fst d) \<Longrightarrow> distinct (map fst (route_records A ms d))"
proof (induction ms arbitrary: d)
  case Nil
  then show ?case by (simp add: route_records_Nil)
next
  case (Cons m ms)
  obtain cell expl where m: "m = (cell, expl)" by (cases m)
  show ?case
    unfolding m route_records_Cons
    by (rule Cons.IH) (rule distinct_update [OF Cons.prems])
qed

lemma records_of_cell_Cons:
  "records_of_cell cell ((c, r) # ms) = (if c = cell then [r] else []) @ records_of_cell cell ms"
  by (simp add: records_of_cell_def)

lemma records_of_cell_absent:
  "cell \<notin> fst ` set ms \<Longrightarrow> records_of_cell cell ms = []"
  by (force simp: records_of_cell_def filter_empty_conv)

lemma map_of_route_records:
  "map_of (route_records A ms d) cell =
     (if cell \<in> fst ` set ms
      then Some (foldl (feed_op A)
                   (case map_of d cell of None \<Rightarrow> construct A 0 | Some agg \<Rightarrow> agg)
                   (records_of_cell cell ms))
      else map_of d cell)"
proof (induction ms arbitrary: d)
  case Nil
  show ?case by (simp add: route_records_Nil)
next
  case (Cons m ms)
  obtain c expl where m: "m = (c, expl)" by (cases m)
  show ?case
    by (simp add: m route_records_Cons Cons.IH update_conv' records_of_cell_Cons
        records_of_cell_absent)
qed

lemma collect_statistics_closed:
  assumes "distinct (map fst d)"
    and "\<forall>(cell, agg)\<in>set d. \<exists>s. get_statistics_op A agg stats_type k = Inr s"
  shows "\<exists>stats. collect_statistics A stats_type k d acc = Inr stats
           \<and> fst ` set stats = fst ` set acc \<union> fst ` set d
           \<and> (distinct (map fst acc) \<longrightarrow> distinct (map fst stats))
           \<and> (\<forall>cell. map_of stats cell =
                 (case map_of d cell of
                    Some agg \<Rightarrow>
                      (case get_statistics_op A agg stats_type k of
                         Inr s \<Rightarrow> Some s | Inl err \<Rightarrow> None)
                  | None \<Rightarrow> map_of acc cell))"
  using assms
proof (induction d arbitrary: acc)
  case Nil
  show ?case by simp
next
  case (Cons p d)
  obtain c agg where p: "p = (c, agg)" by (cases p)
  from Cons.prems p obtain s where s: "get_statistics_op A agg stats_type k = Inr s"
    by auto
  from Cons.prems p have d: "distinct (map fst d)" and fresh: "c \<notin> fst ` set d"
    and all: "\<forall>(cell, agg)\<in>set d. \<exists>s. get_statistics_op A agg stats_type k = Inr s"
    by auto
  from Cons.IH [OF d all, of "AList.update c s acc"]
  obtain stats where r: "collect_statistics A stats_type k d (AList.update c s acc) = Inr stats"
    and ks: "fst ` set stats = fst ` set (AList.update c s acc) \<union> fst ` set d"
    and ds: "distinct (map fst (AList.update c s acc)) \<longrightarrow> distinct (map fst stats)"
    and ms: "\<forall>cell. map_of stats cell =
                 (case map_of d cell of
                    Some agg \<Rightarrow>
                      (case get_statistics_op A agg stats_type k of
                         Inr s \<Rightarrow> Some s | Inl err \<Rightarrow> None)
                  | None \<Rightarrow> map_of (AList.update c s acc) cell)"
    by blast
  have "collect_statistics A stats_type k (p # d) acc = Inr stats"
    by (simp add: p s r)
  moreover have "fst ` set stats = fst ` set acc \<union> fst ` set (p # d)"
    using ks by (auto simp: p dom_update)
  moreover have "distinct (map fst acc) \<longrightarrow> distinct (map fst stats)"
    using ds by (simp add: distinct_update)
  moreover have "\<forall>cell. map_of stats cell =
                 (case map_of (p # d) cell of
                    Some agg \<Rightarrow>
                      (case get_statistics_op A agg stats_type k of
                         Inr s \<Rightarrow> Some s | Inl err \<Rightarrow> None)
                  | None \<Rightarrow> map_of acc cell)"
  proof
    fix cell
    from fresh have none: "map_of d c = None"
      by (simp add: map_of_eq_None_iff)
    show "map_of stats cell =
                 (case map_of (p # d) cell of
                    Some agg \<Rightarrow>
                      (case get_statistics_op A agg stats_type k of
                         Inr s \<Rightarrow> Some s | Inl err \<Rightarrow> None)
                  | None \<Rightarrow> map_of acc cell)"
      using ms [rule_format, of cell] none
      by (cases "cell = c") (simp_all add: p s update_conv' split: option.splits)
  qed
  ultimately show ?case by blast
qed

lemma collect_statistics_from_empty:
  assumes "distinct (map fst d)"
    and "\<forall>(cell, agg)\<in>set d. \<exists>s. get_statistics_op A agg stats_type k = Inr s"
  shows "\<exists>stats. collect_statistics A stats_type k d [] = Inr stats
           \<and> fst ` set stats = fst ` set d
           \<and> distinct (map fst stats)
           \<and> (\<forall>cell. map_of stats cell =
                 (case map_of d cell of
                    Some agg \<Rightarrow>
                      (case get_statistics_op A agg stats_type k of
                         Inr s \<Rightarrow> Some s | Inl err \<Rightarrow> None)
                  | None \<Rightarrow> None))"
  using collect_statistics_closed [OF assms, of "[]"] by (simp cong: option.case_cong)

lemma misclassified_cells_differ:
  "((g, p), r) \<in> set (misclassified gts expls) \<Longrightarrow> g \<noteq> p"
  by (auto simp: misclassified_def split: sum.splits if_splits dest: in_set_zipE)

text \<open>
  C5. On a built interpreter whose explainer gives a record with at least one class for
  every pair, and when \<^verbatim>\<open>get_statistics\<close> answers for every cell, \<^verbatim>\<open>error_analysis\<close> returns
  a dictionary whose keys are exactly the cells (ground truth, predicted) of the
  misclassified samples, each mapped to the \<^verbatim>\<open>get_statistics(stats_type, k)\<close> of an
  aggregator of threshold 0 fed with exactly the records of the samples of that cell, in
  input order. No key has equal ground truth and prediction: a correctly classified
  sample's record is fed to no aggregator.
\<close>

theorem error_analysis_cells:
  assumes "explainer self = Some e"
    and "expls = fst (explain_each X e
                   (map (\<lambda>(x, y). (x, class_num, 100, k)) (zip valid_x valid_y)))"
    and "[] \<notin> set expls"
    and "ms = misclassified (map snd (zip valid_x valid_y)) expls"
    and "\<forall>cell\<in>set (map fst ms).
           \<exists>s. get_statistics_op A
                  (foldl (feed_op A) (construct A 0) (records_of_cell cell ms)) stats_type k
                = Inr s"
  shows "\<exists>stats.
           fst (error_analysis X A self class_num valid_x valid_y stats_type k) = Inr stats
         \<and> distinct (map fst stats)
         \<and> set (map fst stats) = set (map fst ms)
         \<and> (\<forall>cell\<in>set (map fst ms).
               \<exists>s. map_of stats cell = Some s
                 \<and> get_statistics_op A
                      (foldl (feed_op A) (construct A 0) (records_of_cell cell ms)) stats_type k
                    = Inr s)
         \<and> (\<forall>(gt_label, predict)\<in>set (map fst stats). gt_label \<noteq> predict)"
proof -
  let ?d = "route_records A ms []"
  have loop: "fst (analyze_samples X A class_num k (length valid_x) 0 (zip valid_x valid_y) []
                 (explainer self) []) = Inr ?d"
    unfolding assms(1) assms(4) assms(2)
    by (rule analyze_samples_closed) (use assms(2,3) in simp)
  have dd: "distinct (map fst ?d)"
    by (rule distinct_route_records) simp
  have kd: "fst ` set ?d = fst ` set ms"
    by (simp add: keys_route_records)
  have md: "map_of ?d cell =
              (if cell \<in> fst ` set ms
               then Some (foldl (feed_op A) (construct A 0) (records_of_cell cell ms))
               else None)" for cell
    by (simp add: map_of_route_records)
  have ok: "\<forall>(cell, agg)\<in>set ?d. \<exists>s. get_statistics_op A agg stats_type k = Inr s"
  proof (clarify)
    fix g p agg
    assume i: "((g, p), agg) \<in> set ?d"
    with dd have "map_of ?d (g, p) = Some agg" by simp
    with md [of "(g, p)"] have "(g, p) \<in> fst ` set ms"
      and "agg = foldl (feed_op A) (construct A 0) (records_of_cell (g, p) ms)"
      by (auto split: if_splits)
    with assms(5) show "\<exists>s. get_statistics_op A agg stats_type k = Inr s"
      by auto
  qed
  from collect_statistics_from_empty [OF dd ok]
  obtain stats where r: "collect_statistics A stats_type k ?d [] = Inr stats"
    and ks: "fst ` set stats = fst ` set ?d"
    and ds: "distinct (map fst stats)"
    and mp: "\<forall>cell. map_of stats cell =
                 (case map_of ?d cell of
                    Some agg \<Rightarrow>
                      (case get_statistics_op A agg stats_type k of
                         Inr s \<Rightarrow> Some s | Inl err \<Rightarrow> None)
                  | None \<Rightarrow> None)"
    by blast
  have "fst (error_analysis X A self class_num valid_x valid_y stats_type k) = Inr stats"
    by (simp add: error_analysis_components(1) loop r)
  moreover have keys: "set (map fst stats) = set (map fst ms)"
    using ks kd by simp
  moreover have "\<forall>cell\<in>set (map fst ms).
               \<exists>s. map_of stats cell = Some s
                 \<and> get_statistics_op A
                      (foldl (feed_op A) (construct A 0) (records_of_cell cell ms)) stats_type k
                    = Inr s"
  proof
    fix cell
    assume c: "cell \<in> set (map fst ms)"
    with assms(5) obtain s where s: "get_statistics_op A
                  (foldl (feed_op A) (construct A 0) (records_of_cell cell ms)) stats_type k
                = Inr s"
      by blast
    from c have "map_of ?d cell = Some (foldl (feed_op A) (construct A 0) (records_of_cell cell ms))"
      by (simp add: md)
    with mp [rule_format, of cell] s have "map_of stats cell = Some s"
      by simp
    with s show "\<exists>s. map_of stats cell = Some s
                 \<and> get_statistics_op A
                      (foldl (feed_op A) (construct A 0) (records_of_cell cell ms)) stats_type k
                    = Inr s"
      by blast
  qed
  moreover have "\<forall>(gt_label, predict)\<in>set (map fst stats). gt_label \<noteq> predict"
    unfolding keys assms(4)
    by (auto dest: misclassified_cells_differ)
  ultimately show ?thesis using ds by blast
qed


theorem error_analysis_cells_witness:
  "explainer (built_interpreter :: (nat \<times> int \<times> int \<times> int) list ModelInterpreter) = Some []
   \<and> [] \<notin> set [validation_table 10, validation_table 11, validation_table 12]
   \<and> (\<exists>stats.
         fst (error_analysis (logging_explainer validation_table) aggregator_class
                built_interpreter 2 [10, 11, 12] [0, 0, 1] ''top_k'' 5) = Inr stats
       \<and> distinct (map fst stats)
       \<and> set (map fst stats) = {(0, 1), (1, 0)}
       \<and> (\<exists>s. map_of stats (0, 1) = Some s
              \<and> get_statistics (feed (ExplanationAggregator 0) (validation_table 11)) ''top_k'' 5
                  = Inr s)
       \<and> (\<exists>s. map_of stats (1, 0) = Some s
              \<and> get_statistics (feed (ExplanationAggregator 0) (validation_table 12)) ''top_k'' 5
                  = Inr s))
   \<and> (case fst (error_analysis (logging_explainer validation_table) aggregator_class
                 built_interpreter 2 [10, 11, 12] [0, 0, 1] ''top_k'' 5) of
        Inr stats \<Rightarrow>
          map (\<lambda>(cell, m). (cell, m 0, m 1)) stats =
            [((0, 1), Some [''f1''], Some [''f1'', ''f3'']),
             ((1, 0), Some [''f2''], Some [''f3''])]
      | Inl err \<Rightarrow> False)"
proof -
  let ?expls = "[validation_table 10, validation_table 11, validation_table 12]"
  let ?ms = "[((0 :: nat, 1 :: nat), validation_table 11), ((1, 0), validation_table 12)]"
  have h1: "explainer (built_interpreter :: (nat \<times> int \<times> int \<times> int) list ModelInterpreter)
              = Some []"
    by (simp add: built_interpreter_def)
  have h2: "?expls = fst (explain_each (logging_explainer validation_table) []
                   (map (\<lambda>(x, y). (x, 2, 100, 5)) (zip [10, 11, 12] [0 :: nat, 0, 1])))"
    by (simp add: logging_explainer_def)
  have h3: "[] \<notin> set ?expls"
    by (simp add: validation_table_def)
  have p10: "predict_label (validation_table 10) = Inr 0"
    and p11: "predict_label (validation_table 11) = Inr 1"
    and p12: "predict_label (validation_table 12) = Inr 0"
    by code_simp+
  have h4: "?ms = misclassified (map snd (zip [10 :: nat, 11, 12] [0, 0, 1])) ?expls"
    by (simp add: misclassified_def p10 p11 p12)
  have h5: "\<forall>cell\<in>set (map fst ?ms).
           \<exists>s. get_statistics_op aggregator_class
                  (foldl (feed_op aggregator_class) (construct aggregator_class 0)
                     (records_of_cell cell ?ms)) ''top_k'' 5
                = Inr s"
    by (simp add: aggregator_class_def get_statistics_def)
  note t = error_analysis_cells [where X = "logging_explainer validation_table" and e = "[]"
      and class_num = 2 and k = 5 and valid_x = "[10, 11, 12]" and valid_y = "[0, 0, 1]"
      and A = aggregator_class and stats_type = "''top_k''" and self = built_interpreter
      and expls = ?expls and ms = ?ms, OF h1 h2 h3 h4 h5]
  have a: "\<exists>stats.
         fst (error_analysis (logging_explainer validation_table) aggregator_class
                built_interpreter 2 [10, 11, 12] [0, 0, 1] ''top_k'' 5) = Inr stats
       \<and> distinct (map fst stats)
       \<and> set (map fst stats) = {(0, 1), (1, 0)}
       \<and> (\<exists>s. map_of stats (0, 1) = Some s
              \<and> get_statistics (feed (ExplanationAggregator 0) (validation_table 11)) ''top_k'' 5
                  = Inr s)
       \<and> (\<exists>s. map_of stats (1, 0) = Some s
              \<and> get_statistics (feed (ExplanationAggregator 0) (validation_table 12)) ''top_k'' 5
                  = Inr s)"
    using t by (simp add: records_of_cell_def aggregator_class_def) blast
  have b: "(case fst (error_analysis (logging_explainer validation_table) aggregator_class
                 built_interpreter 2 [10, 11, 12] [0, 0, 1] ''top_k'' 5) of
        Inr stats \<Rightarrow>
          map (\<lambda>(cell, m). (cell, m 0, m 1)) stats =
            [((0, 1), Some [''f1''], Some [''f1'', ''f3'']),
             ((1, 0), Some [''f2''], Some [''f3''])]
      | Inl err \<Rightarrow> False)"
    by code_simp
  from h1 h3 a b show ?thesis by blast
qed

subsection \<open>Every pair of error_analysis\<close>

lemma analyze_samples_explainer:
  assumes "[] \<notin> set (fst (explain_each X e (map (\<lambda>(x, y). (x, class_num, 100, k)) ps)))"
  shows "fst (snd (analyze_samples X A class_num k n idx ps d (Some e) w)) =
           Some (snd (explain_each X e (map (\<lambda>(x, y). (x, class_num, 100, k)) ps)))"
  using assms
proof (induction ps arbitrary: idx d e w)
  case Nil
  show ?case by simp
next
  case (Cons p ps)
  obtain sample gt_label where p: "p = (sample, gt_label)" by (cases p)
  obtain expl e' where x: "X e sample class_num 100 k = (expl, e')"
    by (cases "X e sample class_num 100 k")
  obtain expls e'' where xs:
    "explain_each X e' (map (\<lambda>(x, y). (x, class_num, 100, k)) ps) = (expls, e'')"
    by (cases "explain_each X e' (map (\<lambda>(x, y). (x, class_num, 100, k)) ps)")
  have all: "explain_each X e (map (\<lambda>(x, y). (x, class_num, 100, k)) (p # ps))
               = (expl # expls, e'')"
    by (simp add: p x xs)
  with Cons.prems have ne: "expl \<noteq> []" and rest: "[] \<notin> set expls"
    by auto
  from predict_label_nonempty [OF ne] obtain pr where pr: "predict_label expl = Inr pr"
    by blast
  from rest xs
  have prem: "[] \<notin> set (fst (explain_each X e' (map (\<lambda>(x, y). (x, class_num, 100, k)) ps)))"
    by simp
  note IH = Cons.IH [OF prem]
  show ?case
    unfolding all
    by (simp add: p x pr feed_cell_Inr IH xs)
qed

text \<open>
  C4. \<^verbatim>\<open>error_analysis\<close> on a built interpreter, when every record the explainer gives is
  a dictionary (distinct classes) with at least one class. The explainer is called on the
  sample of every zipped pair, in input order, with \<open>top_labels = class_num\<close>,
  \<open>num_samples = 100\<close> and \<open>num_features = k\<close>, and is left in the state after the last call. The
  predicted label of every record is a class of that record whose confidence no class of
  the record exceeds. Starting from the empty dictionary, the loop routes, in input order,
  exactly the records whose predicted label differs from the ground-truth label, each to
  the cell (ground truth, predicted): the cell's aggregator is constructed with threshold
  0 when the cell has none yet, and is fed the whole record. So every cell of the final
  dictionary holds an aggregator of threshold 0 fed with the records of its misclassified
  samples, no other cell exists, and the result is the statistics collected from that
  dictionary.
\<close>

theorem error_analysis_per_pair:
  assumes "explainer self = Some e"
    and "expls = fst (explain_each X e
                   (map (\<lambda>(x, y). (x, class_num, 100, k)) (zip valid_x valid_y)))"
    and "\<forall>expl\<in>set expls. expl \<noteq> [] \<and> distinct (map fst expl)"
    and "ms = misclassified (map snd (zip valid_x valid_y)) expls"
  shows "fst (analyze_samples X A class_num k (length valid_x) 0 (zip valid_x valid_y) []
                (explainer self) []) = Inr (route_records A ms [])
         \<and> fst (error_analysis X A self class_num valid_x valid_y stats_type k) =
             collect_statistics A stats_type k (route_records A ms []) []
         \<and> explainer (fst (snd (error_analysis X A self class_num valid_x valid_y stats_type k))) =
             Some (snd (explain_each X e
                     (map (\<lambda>(x, y). (x, class_num, 100, k)) (zip valid_x valid_y))))
         \<and> (\<forall>expl\<in>set expls.
               \<exists>predict ce. predict_label expl = Inr predict
                 \<and> (predict, ce) \<in> set expl
                 \<and> (\<forall>(c, ce')\<in>set expl. confidence ce' \<le> confidence ce))
         \<and> (\<forall>cell. map_of (route_records A ms []) cell =
               (if cell \<in> fst ` set ms
                then Some (foldl (feed_op A) (construct A 0) (records_of_cell cell ms))
                else None))"
proof -
  from assms(3) have ne: "[] \<notin> set expls" by blast
  have loop: "fst (analyze_samples X A class_num k (length valid_x) 0 (zip valid_x valid_y) []
                 (explainer self) []) = Inr (route_records A ms [])"
    unfolding assms(1) assms(4) assms(2)
    by (rule analyze_samples_closed) (use assms(2) ne in simp)
  have expl_state: "fst (snd (analyze_samples X A class_num k (length valid_x) 0
                 (zip valid_x valid_y) [] (explainer self) [])) =
             Some (snd (explain_each X e
                     (map (\<lambda>(x, y). (x, class_num, 100, k)) (zip valid_x valid_y))))"
    unfolding assms(1)
    by (rule analyze_samples_explainer) (use assms(2) ne in simp)
  have res: "fst (error_analysis X A self class_num valid_x valid_y stats_type k) =
             collect_statistics A stats_type k (route_records A ms []) []"
    by (simp add: error_analysis_components(1) loop)
  have st: "explainer (fst (snd (error_analysis X A self class_num valid_x valid_y stats_type k))) =
             Some (snd (explain_each X e
                     (map (\<lambda>(x, y). (x, class_num, 100, k)) (zip valid_x valid_y))))"
    by (simp add: error_analysis_components(2) expl_state)
  have mx: "\<forall>expl\<in>set expls.
               \<exists>predict ce. predict_label expl = Inr predict
                 \<and> (predict, ce) \<in> set expl
                 \<and> (\<forall>(c, ce')\<in>set expl. confidence ce' \<le> confidence ce)"
  proof
    fix expl
    assume "expl \<in> set expls"
    with assms(3) have n: "expl \<noteq> []" and d: "distinct (map fst expl)" by auto
    from predict_label_first_max [OF d n]
    obtain c ce rs where p: "predict_label expl = Inr c"
      and f: "filter (\<lambda>(c', ce'). confidence ce' = confidence ce) expl = (c, ce) # rs"
      and m: "\<forall>(c', ce')\<in>set expl. confidence ce' \<le> confidence ce"
      by blast
    from f have "(c, ce) \<in> set (filter (\<lambda>(c', ce'). confidence ce' = confidence ce) expl)"
      by simp
    then have "(c, ce) \<in> set expl" by simp
    with p m show "\<exists>predict ce. predict_label expl = Inr predict
                 \<and> (predict, ce) \<in> set expl
                 \<and> (\<forall>(c, ce')\<in>set expl. confidence ce' \<le> confidence ce)"
      by blast
  qed
  have cells: "\<forall>cell. map_of (route_records A ms []) cell =
               (if cell \<in> fst ` set ms
                then Some (foldl (feed_op A) (construct A 0) (records_of_cell cell ms))
                else None)"
    by (simp add: map_of_route_records)
  from loop res st mx cells show ?thesis by blast
qed

theorem error_analysis_per_pair_witness:
  "explainer (built_interpreter :: (nat \<times> int \<times> int \<times> int) list ModelInterpreter) = Some []
   \<and> validation_table 10 \<noteq> [] \<and> distinct (map fst (validation_table 10))
   \<and> validation_table 11 \<noteq> [] \<and> distinct (map fst (validation_table 11))
   \<and> fst (analyze_samples (logging_explainer validation_table) aggregator_class 2 5
            (length [11, 10, 11 :: nat]) 0 (zip [11, 10, 11] [0, 0, 0 :: nat]) []
            (explainer built_interpreter) [])
       = Inr [((0, 1),
               feed (feed (ExplanationAggregator 0) (validation_table 11)) (validation_table 11))]
   \<and> fst (error_analysis (logging_explainer validation_table) aggregator_class
            built_interpreter 2 [11, 10, 11] [0, 0, 0] ''top_k'' 5)
       = collect_statistics aggregator_class ''top_k'' 5
           [((0, 1),
             feed (feed (ExplanationAggregator 0) (validation_table 11)) (validation_table 11))]
           []
   \<and> explainer (fst (snd (error_analysis (logging_explainer validation_table) aggregator_class
            built_interpreter 2 [11, 10, 11] [0, 0, 0] ''top_k'' 5)))
       = Some [(11, 2, 100, 5), (10, 2, 100, 5), (11, 2, 100, 5)]"
proof -
  let ?expls = "[validation_table 11, validation_table 10, validation_table 11]"
  let ?ms = "[((0 :: nat, 1 :: nat), validation_table 11), ((0, 1), validation_table 11)]"
  have h1: "explainer (built_interpreter :: (nat \<times> int \<times> int \<times> int) list ModelInterpreter)
              = Some []"
    by (simp add: built_interpreter_def)
  have h2: "?expls = fst (explain_each (logging_explainer validation_table) []
                   (map (\<lambda>(x, y). (x, 2, 100, 5)) (zip [11, 10, 11] [0 :: nat, 0, 0])))"
    by (simp add: logging_explainer_def)
  have n10: "validation_table 10 \<noteq> []" and d10: "distinct (map fst (validation_table 10))"
    and n11: "validation_table 11 \<noteq> []" and d11: "distinct (map fst (validation_table 11))"
    by (simp_all add: validation_table_def)
  then have h3: "\<forall>expl\<in>set ?expls. expl \<noteq> [] \<and> distinct (map fst expl)"
    by simp
  have p10: "predict_label (validation_table 10) = Inr 0"
    and p11: "predict_label (validation_table 11) = Inr 1"
    by code_simp+
  have h4: "?ms = misclassified (map snd (zip [11 :: nat, 10, 11] [0, 0, 0])) ?expls"
    by (simp add: misclassified_def p10 p11)
  note t = error_analysis_per_pair [where X = "logging_explainer validation_table" and e = "[]"
      and class_num = 2 and k = 5 and valid_x = "[11, 10, 11]" and valid_y = "[0, 0, 0]"
      and A = aggregator_class and stats_type = "''top_k''" and self = built_interpreter
      and expls = ?expls and ms = ?ms, OF h1 h2 h3 h4]
  have r: "route_records aggregator_class ?ms [] =
             [((0, 1),
               feed (feed (ExplanationAggregator 0) (validation_table 11)) (validation_table 11))]"
    by (simp add: route_records_def aggregator_class_def)
  have c: "snd (explain_each (logging_explainer validation_table) []
                   (map (\<lambda>(x, y). (x, 2, 100, 5)) (zip [11, 10, 11] [0 :: nat, 0, 0])))
             = [(11, 2, 100, 5), (10, 2, 100, 5), (11, 2, 100, 5)]"
    by (simp add: logging_explainer_def)
  from t have a1: "fst (analyze_samples (logging_explainer validation_table) aggregator_class 2 5
            (length [11, 10, 11 :: nat]) 0 (zip [11, 10, 11] [0, 0, 0 :: nat]) []
            (explainer built_interpreter) [])
       = Inr (route_records aggregator_class ?ms [])"
    and a2: "fst (error_analysis (logging_explainer validation_table) aggregator_class
            built_interpreter 2 [11, 10, 11] [0, 0, 0] ''top_k'' 5)
       = collect_statistics aggregator_class ''top_k'' 5 (route_records aggregator_class ?ms []) []"
    and a3: "explainer (fst (snd (error_analysis (logging_explainer validation_table)
            aggregator_class built_interpreter 2 [11, 10, 11] [0, 0, 0] ''top_k'' 5)))
       = Some (snd (explain_each (logging_explainer validation_table) []
                   (map (\<lambda>(x, y). (x, 2, 100, 5)) (zip [11, 10, 11] [0 :: nat, 0, 0]))))"
    by blast+
  from h1 n10 d10 n11 d11 a1 [unfolded r] a2 [unfolded r] a3 [unfolded c]
  show ?thesis by blast
qed

subsection \<open>The aggregator\<close>

lemma occurrences_from_Nil: "occurrences_from r f [] = []"
  by (simp add: occurrences_from_def)

lemma occurrences_from_Cons:
  "occurrences_from r f ((f', s) # fs) =
     (if f' = f then [(r, s)] else []) @ occurrences_from (Suc r) f fs"
proof -
  have "r < Suc r + length fs" by simp
  then have "[r..<Suc r + length fs] = r # [Suc r..<Suc r + length fs]"
    by (rule upt_conv_Cons)
  moreover have "r + length ((f', s) # fs) = Suc r + length fs" by simp
  ultimately have "[r..<r + length ((f', s) # fs)] = r # [Suc r..<Suc r + length fs]"
    by (simp only:)
  then show ?thesis
    unfolding occurrences_from_def by (simp del: upt_Suc length_Cons add_Suc)
qed

lemma feed_features_fields:
  "confidence_threshold (feed_features c r fs a) = confidence_threshold a"
  "included (feed_features c r fs a) = included a"
  "feature_ids (feed_features c r fs a) = (feature_ids a)(c := feature_ids a c \<union> fst ` set fs)"
  "appearances (feed_features c r fs a) =
     (appearances a)(c := (\<lambda>f. appearances a c f + length (occurrences_from r f fs)))"
  "score_sum (feed_features c r fs a) =
     (score_sum a)(c := (\<lambda>f. score_sum a c f + sum_list (map snd (occurrences_from r f fs))))"
  "rank_sum (feed_features c r fs a) =
     (rank_sum a)(c := (\<lambda>f. rank_sum a c f + sum_list (map fst (occurrences_from r f fs))))"
  "rank_positions (feed_features c r fs a) =
     (rank_positions a)(c := (\<lambda>f. rank_positions a c f + mset (map fst (occurrences_from r f fs))))"
proof (induction fs arbitrary: r a)
  case Nil
  {
    case 1 show ?case by simp
  next
    case 2 show ?case by simp
  next
    case 3 show ?case by simp
  next
    case 4 show ?case by (simp add: occurrences_from_Nil)
  next
    case 5 show ?case by (simp add: occurrences_from_Nil)
  next
    case 6 show ?case by (simp add: occurrences_from_Nil)
  next
    case 7 show ?case by (simp add: occurrences_from_Nil)
  }
next
  case (Cons p fs)
  obtain f s where p: "p = (f, s)" by (cases p)
  {
    case 1 show ?case by (simp add: p Cons.IH feed_feature_def)
  next
    case 2 show ?case by (simp add: p Cons.IH feed_feature_def)
  next
    case 3 show ?case by (auto simp: p Cons.IH feed_feature_def fun_eq_iff)
  next
    case 4 show ?case by (auto simp: p Cons.IH feed_feature_def fun_eq_iff occurrences_from_Cons)
  next
    case 5 show ?case by (auto simp: p Cons.IH feed_feature_def fun_eq_iff occurrences_from_Cons)
  next
    case 6 show ?case by (auto simp: p Cons.IH feed_feature_def fun_eq_iff occurrences_from_Cons)
  next
    case 7 show ?case by (auto simp: p Cons.IH feed_feature_def fun_eq_iff occurrences_from_Cons)
  }
qed


lemma feed_class_threshold:
  "confidence_threshold (feed_class c ce a) = confidence_threshold a"
  by (simp add: feed_class_def feed_features_fields)

lemma class_view_feed_class:
  "class_view (feed_class c ce a) c' =
     (if c = c' \<and> confidence_threshold a \<le> confidence ce
      then accumulate ce (class_view a c')
      else class_view a c')"
  by (simp add: feed_class_def class_view_def accumulate_def occurrences_def feed_features_fields)

lemma feed_threshold:
  "confidence_threshold (feed a expl) = confidence_threshold a"
proof -
  have "confidence_threshold (fold (\<lambda>(c, ce). feed_class c ce) expl a) = confidence_threshold a"
    by (induction expl arbitrary: a) (auto simp: feed_class_threshold)
  then show ?thesis by (simp add: feed_def)
qed

lemma class_view_feed:
  "class_view (feed a expl) c' =
     fold (\<lambda>(c, ce) v. if c = c' \<and> confidence_threshold a \<le> confidence ce
                        then accumulate ce v else v)
       expl (class_view a c')"
proof -
  have "class_view (fold (\<lambda>(c, ce). feed_class c ce) expl a) c' =
     fold (\<lambda>(c, ce) v. if c = c' \<and> confidence_threshold a \<le> confidence ce
                        then accumulate ce v else v)
       expl (class_view a c')"
  proof (induction expl arbitrary: a)
    case Nil
    show ?case by simp
  next
    case (Cons p expl)
    obtain c ce where p: "p = (c, ce)" by (cases p)
    show ?case
      by (simp add: p Cons.IH feed_class_threshold class_view_feed_class)
  qed
  then show ?thesis by (simp add: feed_def)
qed

lemma fold_absent_key:
  "c' \<notin> fst ` set expl \<Longrightarrow>
   fold (\<lambda>(c, ce) v. if c = c' \<and> P ce then g ce v else v) expl v = v"
  by (induction expl arbitrary: v) auto

lemma fold_distinct_key:
  "distinct (map fst expl) \<Longrightarrow>
   fold (\<lambda>(c, ce) v. if c = c' \<and> P ce then g ce v else v) expl v =
     (case map_of expl c' of
        Some ce \<Rightarrow> if P ce then g ce v else v
      | None \<Rightarrow> v)"
proof (induction expl arbitrary: v)
  case Nil
  show ?case by simp
next
  case (Cons p expl)
  obtain c ce where p: "p = (c, ce)" by (cases p)
  from Cons.prems p have d: "distinct (map fst expl)" and fresh: "c \<notin> fst ` set expl"
    by auto
  show ?case
  proof (cases "c = c'")
    case True
    with fresh have "c' \<notin> fst ` set expl" by simp
    then show ?thesis
      by (simp add: p True fold_absent_key)
  next
    case False
    then show ?thesis
      by (simp add: p Cons.IH [OF d])
  qed
qed

text \<open>
  C6. Feeding a record (a dictionary, so its classes are distinct) changes what the
  aggregator holds for a class as follows. A class of the record whose confidence is at
  least the threshold (equal counts) has its included-record count incremented and, for
  every (feature, score) pair at 1-based rank position \<open>r\<close> of its feature list, the
  feature's appearance count incremented, the score added to its sum of scores and \<open>r\<close>
  added to its sum of ranks and to its rank positions. A class of the record below the
  threshold, and a class that is not in the record, is left as it was, whatever the other
  classes of the record are. The threshold does not change.
\<close>

theorem feed_per_class:
  assumes "distinct (map fst expl)"
  shows "class_view (feed a expl) c =
           (case map_of expl c of
              Some ce \<Rightarrow>
                if confidence_threshold a \<le> confidence ce
                then accumulate ce (class_view a c)
                else class_view a c
            | None \<Rightarrow> class_view a c)
         \<and> confidence_threshold (feed a expl) = confidence_threshold a"
  unfolding class_view_feed feed_threshold
  using fold_distinct_key [OF assms, of c "\<lambda>ce. confidence_threshold a \<le> confidence ce" accumulate]
  by simp

lemma accumulate_commute:
  "accumulate ce1 (accumulate ce2 v) = accumulate ce2 (accumulate ce1 v)"
  by (cases v) (auto simp: accumulate_def fun_eq_iff)

lemma fold_commuting:
  assumes "\<And>x y. f x \<circ> f y = f y \<circ> f x"
  shows "fold f ys (fold f xs v) = fold f xs (fold f ys v)"
proof -
  have "fold f (xs @ ys) = fold f (ys @ xs)"
    by (rule fold_multiset_equiv) (simp_all add: assms)
  then show ?thesis
    by (simp add: fun_eq_iff)
qed

lemma class_view_eq_iff:
  "(\<forall>c. class_view a c = class_view b c) \<longleftrightarrow>
     included a = included b \<and> feature_ids a = feature_ids b \<and> appearances a = appearances b
     \<and> score_sum a = score_sum b \<and> rank_sum a = rank_sum b
     \<and> rank_positions a = rank_positions b"
  by (auto simp: class_view_def fun_eq_iff)

lemma feed_commute:
  "feed (feed a r1) r2 = feed (feed a r2) r1"
proof -
  let ?F = "\<lambda>c'. (\<lambda>(c, ce) v. if c = c' \<and> confidence_threshold a \<le> confidence ce
                        then accumulate ce v else v)"
  have comm: "?F c' x \<circ> ?F c' y = ?F c' y \<circ> ?F c' x" for c' x y
    by (cases x; cases y) (auto simp: fun_eq_iff accumulate_commute)
  have "class_view (feed (feed a r1) r2) c' = class_view (feed (feed a r2) r1) c'" for c'
    unfolding class_view_feed feed_threshold
    by (rule fold_commuting) (rule comm)
  then have "\<forall>c. class_view (feed (feed a r1) r2) c = class_view (feed (feed a r2) r1) c"
    by blast
  then show ?thesis
    unfolding class_view_eq_iff
    by (intro aggregator.equality) (simp_all add: feed_threshold)
qed

text \<open>
  C7. Feeding two records into a fresh aggregator in either order gives the same
  \<^verbatim>\<open>get_statistics\<close> output, for every threshold, every \<open>stats_type\<close> (the three supported
  ones, and the unsupported ones, which fail either way) and every \<open>k\<close>.
\<close>

theorem feed_order_irrelevant:
  "get_statistics (feed (feed (ExplanationAggregator t) r1) r2) stats_type k =
   get_statistics (feed (feed (ExplanationAggregator t) r2) r1) stats_type k"
  by (simp add: feed_commute [of "ExplanationAggregator t" r1 r2])

theorem feed_per_class_witness:
  "distinct (map fst threshold_record)
   \<and> included (feed (ExplanationAggregator 0.8) threshold_record) 1 = 1
   \<and> feature_ids (feed (ExplanationAggregator 0.8) threshold_record) 1 = {''f1'', ''f2''}
   \<and> appearances (feed (ExplanationAggregator 0.8) threshold_record) 1 ''f2'' = 1
   \<and> score_sum (feed (ExplanationAggregator 0.8) threshold_record) 1 ''f2'' = 0.3
   \<and> rank_sum (feed (ExplanationAggregator 0.8) threshold_record) 1 ''f2'' = 2
   \<and> rank_positions (feed (ExplanationAggregator 0.8) threshold_record) 1 ''f2'' = {#2#}
   \<and> included (feed (ExplanationAggregator 0.8) threshold_record) 2 = 0
   \<and> feature_ids (feed (ExplanationAggregator 0.8) threshold_record) 2 = {}
   \<and> appearances (feed (ExplanationAggregator 0.8) threshold_record) 2 ''f1'' = 0
   \<and> confidence_threshold (feed (ExplanationAggregator 0.8) threshold_record) = 0.8"
proof -
  let ?a = "ExplanationAggregator 0.8 :: (nat, string) aggregator"
  have h: "distinct (map fst threshold_record)"
    by (simp add: threshold_record_def)
  note t1 = feed_per_class [OF h, of ?a 1]
  note t2 = feed_per_class [OF h, of ?a 2]
  have v1: "class_view (feed ?a threshold_record) 1 =
              accumulate \<lparr>confidence = 0.8, features = [(''f1'', 0.5), (''f2'', 0.3)]\<rparr>
                (class_view ?a 1)"
    using t1 by (simp add: threshold_record_def ExplanationAggregator_def)
  have v2: "class_view (feed ?a threshold_record) 2 = class_view ?a 2"
    using t2 by (simp add: threshold_record_def ExplanationAggregator_def)
  have th: "confidence_threshold (feed ?a threshold_record) = 0.8"
    using t1 by (simp add: ExplanationAggregator_def)
  from v1 have f1:
    "included (feed ?a threshold_record) 1 = 1"
    "feature_ids (feed ?a threshold_record) 1 = {''f1'', ''f2''}"
    "appearances (feed ?a threshold_record) 1 ''f2'' = 1"
    "score_sum (feed ?a threshold_record) 1 ''f2'' = 0.3"
    "rank_sum (feed ?a threshold_record) 1 ''f2'' = 2"
    "rank_positions (feed ?a threshold_record) 1 ''f2'' = {#2#}"
    by (simp_all add: class_view_def accumulate_def occurrences_def occurrences_from_def
        ExplanationAggregator_def)
  from v2 have f2:
    "included (feed ?a threshold_record) 2 = 0"
    "feature_ids (feed ?a threshold_record) 2 = {}"
    "appearances (feed ?a threshold_record) 2 ''f1'' = 0"
    by (simp_all add: class_view_def ExplanationAggregator_def)
  from h f1 f2 th show ?thesis by blast
qed

theorem feed_order_irrelevant_witness:
  "(case get_statistics (feed (feed (ExplanationAggregator 0) confident_record)
                           (validation_table 11)) ''average_score'' 5 of
      Inr m \<Rightarrow> m 1 = Some [''f3'', ''f1''] \<and> m 7 = Some [''f1'', ''f2'']
    | Inl err \<Rightarrow> False)
   \<and> (case get_statistics (feed (feed (ExplanationAggregator 0) (validation_table 11))
                           confident_record) ''average_score'' 5 of
      Inr m \<Rightarrow> m 1 = Some [''f3'', ''f1''] \<and> m 7 = Some [''f1'', ''f2'']
    | Inl err \<Rightarrow> False)"
proof -
  have a: "(case get_statistics (feed (feed (ExplanationAggregator 0) confident_record)
                           (validation_table 11)) ''average_score'' 5 of
      Inr m \<Rightarrow> m 1 = Some [''f3'', ''f1''] \<and> m 7 = Some [''f1'', ''f2'']
    | Inl err \<Rightarrow> False)"
    by code_simp
  note t = feed_order_irrelevant [of 0 confident_record "validation_table 11" "''average_score''" 5]
  from a show ?thesis
    unfolding t by simp
qed


end
